theory Spec2Isabelle
  imports Complex_Main "HOL-Library.Word"
begin

section \<open>The equilibrium-concentration solver of CalcConc.c\<close>

text \<open>
  A shallow embedding of \<^verbatim>\<open>src/thermo/concentrations/CalcConc.c\<close>.

  Conventions of the embedding:
  \<^item> a \<^verbatim>\<open>double\<close> is read as a \<^typ>\<open>real\<close>, so the embedding describes the arithmetic
    of the program up to rounding and without the IEEE values inf and NaN: where the
    program divides by 0 or takes the square root or logarithm of a number outside
    the domain, the real value here (\<open>x / 0 = 0\<close>) is not the double of the program;
  \<^item> a \<^verbatim>\<open>double *\<close> array is a \<^typ>\<open>real list\<close>, an \<^verbatim>\<open>int **\<close> matrix a list of rows;
    the sizes \<^verbatim>\<open>numSS\<close> and \<^verbatim>\<open>numTotal\<close> are passed beside the arrays as in the source;
  \<^item> an array that a function writes is passed in and returned updated;
  \<^item> the \<^verbatim>\<open>int\<close> flags that the source returns as 1 and 0 are \<^typ>\<open>bool\<close>;
  \<^item> \<^verbatim>\<open>exit(ERR_OVERFLOW)\<close> is the error value \<open>Inl ERR_OVERFLOW\<close>;
  \<^item> the loop of \<^verbatim>\<open>PerturbLambda\<close> has no bound in the source, so it is a partial
    function into \<^typ>\<open>'a option\<close>: \<open>None\<close> is the run that never returns.
\<close>

type_synonym vec = "real list"
type_synonym mat = "real list list"
type_synonym imat = "int list list"

text \<open>
  The state of the random number generator (a global of the generator's file) is
  the sequence of numbers that \<^verbatim>\<open>genrand_real1\<close> is going to return.
\<close>

type_synonym rng = "nat \<Rightarrow> real"

datatype error = ERR_OVERFLOW

text \<open>
  What the file takes from \<^verbatim>\<open>constants.h\<close> and from the files of the Cholesky solver
  and of the random number generator, which are other files of the suite: the two
  constants, and the four functions as parameters.
  \<^verbatim>\<open>choleskyDecomposition\<close> works in place and returns 1 on success: here it returns
  its flag and the decomposed matrix.
\<close>

record env =
  MAXLOGX :: real
  NUM_PRECISION :: real
  GetRandSeed :: "64 word \<Rightarrow> 64 word"
  init_genrand :: "64 word \<Rightarrow> rng"
  choleskyDecomposition :: "mat \<Rightarrow> nat \<Rightarrow> int \<times> mat"
  choleskySolve :: "mat \<Rightarrow> nat \<Rightarrow> vec \<Rightarrow> vec"

subsection \<open>The kernels of utils.c\<close>

text \<open>
  Modelled from the spec: the linear algebra kernels of \<^verbatim>\<open>utils.c\<close> (component C1 of the
  specification: dot products, matrix-vector multiply, integer transpose, norm, sum,
  min), which the source calls. \<open>dot a b n\<close> is the dot product of the first
  \<open>n\<close> entries.
\<close>

definition dot :: "vec \<Rightarrow> vec \<Rightarrow> nat \<Rightarrow> real" where
  "dot a b n = (\<Sum>i\<leftarrow>[0..<n]. a ! i * b ! i)"

text \<open>Modelled from the spec: the dot product of a real and an integer array.\<close>

definition didot :: "vec \<Rightarrow> int list \<Rightarrow> nat \<Rightarrow> real" where
  "didot a b n = (\<Sum>i\<leftarrow>[0..<n]. a ! i * real_of_int (b ! i))"

text \<open>Modelled from the spec: the sum of the first \<open>n\<close> entries of a real array.\<close>

definition sum_vec :: "vec \<Rightarrow> nat \<Rightarrow> real" where
  "sum_vec a n = (\<Sum>i\<leftarrow>[0..<n]. a ! i)"

text \<open>Modelled from the spec: the sum of the first \<open>n\<close> entries of an integer array.\<close>

definition sumint :: "int list \<Rightarrow> nat \<Rightarrow> int" where
  "sumint a n = (\<Sum>i\<leftarrow>[0..<n]. a ! i)"

text \<open>Modelled from the spec: the Euclidean norm of the first \<open>n\<close> entries.\<close>

definition norm_vec :: "vec \<Rightarrow> nat \<Rightarrow> real" where
  "norm_vec a n = sqrt (dot a a n)"

text \<open>Modelled from the spec: the smaller of two reals.\<close>

definition min2 :: "real \<Rightarrow> real \<Rightarrow> real" where
  "min2 a b = (if a < b then a else b)"

text \<open>Modelled from the spec: the product of an \<open>n\<close> by \<open>n\<close> matrix and a vector.\<close>

definition MatrixVectorMult :: "mat \<Rightarrow> vec \<Rightarrow> nat \<Rightarrow> vec" where
  "MatrixVectorMult M v n = map (\<lambda>i. dot (M ! i) v n) [0..<n]"

text \<open>
  Modelled from the spec: the transpose of the \<open>numSS\<close> by \<open>numTotal\<close> integer
  matrix, \<open>AT[j][i] = A[i][j]\<close>.
\<close>

definition IntTranspose :: "imat \<Rightarrow> nat \<Rightarrow> nat \<Rightarrow> imat" where
  "IntTranspose A numSS numTotal = map (\<lambda>j. map (\<lambda>i. A ! i ! j) [0..<numSS]) [0..<numTotal]"

text \<open>
  Modelled from the spec: the column of the non-zero entry of a row (section 4.3: the
  column \<open>j*\<close> with \<open>A[i][j*] \<noteq> 0\<close>), as the first index below \<open>n\<close> that holds a
  non-zero entry, and \<open>n\<close> when there is none.
\<close>

fun FindNonZero_from :: "int list \<Rightarrow> nat \<Rightarrow> nat \<Rightarrow> nat" where
  "FindNonZero_from a j 0 = j"
| "FindNonZero_from a j (Suc k) = (if a ! j \<noteq> 0 then j else FindNonZero_from a (Suc j) k)"

definition FindNonZero :: "int list \<Rightarrow> nat \<Rightarrow> nat" where
  "FindNonZero a n = FindNonZero_from a 0 n"

subsection \<open>The parameter map\<close>

text \<open>
  \<^verbatim>\<open>getx\<close>, lines 289 to 302. \<open>logx_at\<close> is the value that line 294 gives the local
  \<^verbatim>\<open>logx\<close> at index \<open>j\<close>. The loop runs \<open>j\<close> upwards from the index given, writes
  \<open>x[j]\<close> and returns at the first \<open>j\<close> whose \<open>logx\<close> exceeds \<^verbatim>\<open>MAXLOGX\<close>, with the
  array as it is at that moment.
\<close>

definition logx_at :: "vec \<Rightarrow> vec \<Rightarrow> imat \<Rightarrow> nat \<Rightarrow> nat \<Rightarrow> real" where
  "logx_at lambda G AT numSS j = - (G ! j) + didot lambda (AT ! j) numSS"

function getx_from :: "env \<Rightarrow> nat \<Rightarrow> vec \<Rightarrow> vec \<Rightarrow> vec \<Rightarrow> imat \<Rightarrow> nat \<Rightarrow> nat \<Rightarrow> bool \<times> vec" where
  "getx_from E j x lambda G AT numSS numTotal =
     (if j < numTotal then
        (let logx = logx_at lambda G AT numSS j in
         if logx > MAXLOGX E then (False, x)
         else getx_from E (Suc j) (x[j := exp logx]) lambda G AT numSS numTotal)
      else (True, x))"
  by pat_completeness auto
termination
  by (relation "measure (\<lambda>(E, j, x, lambda, G, AT, numSS, numTotal). numTotal - j)") auto

declare getx_from.simps [simp del]

definition getx :: "env \<Rightarrow> vec \<Rightarrow> vec \<Rightarrow> vec \<Rightarrow> imat \<Rightarrow> nat \<Rightarrow> nat \<Rightarrow> bool \<times> vec" where
  "getx E x lambda G AT numSS numTotal = getx_from E 0 x lambda G AT numSS numTotal"

subsection \<open>Gradient, Hessian and convergence test\<close>

text \<open>\<^verbatim>\<open>getGrad\<close>, lines 309 to 314.\<close>

definition getGrad :: "vec \<Rightarrow> vec \<Rightarrow> imat \<Rightarrow> nat \<Rightarrow> nat \<Rightarrow> vec" where
  "getGrad x0 x A numSS numTotal = map (\<lambda>i. - (x0 ! i) + didot x (A ! i) numTotal) [0..<numSS]"

text \<open>
  \<^verbatim>\<open>getHes\<close>, lines 323 to 348: the entries with \<open>m \<le> n\<close> are computed (\<open>Hes_entry\<close>, the
  dot product of \<open>x\<close> with \<^verbatim>\<open>Avec\<close>), the entries below the diagonal are copied from them.
\<close>

definition Hes_entry :: "vec \<Rightarrow> imat \<Rightarrow> nat \<Rightarrow> nat \<Rightarrow> nat \<Rightarrow> real" where
  "Hes_entry x A numTotal m n =
     dot x (map (\<lambda>j. real_of_int (A ! m ! j) * real_of_int (A ! n ! j)) [0..<numTotal]) numTotal"

definition getHes :: "vec \<Rightarrow> imat \<Rightarrow> nat \<Rightarrow> nat \<Rightarrow> mat" where
  "getHes x A numSS numTotal =
     map (\<lambda>m. map (\<lambda>n. if m \<le> n then Hes_entry x A numTotal m n else Hes_entry x A numTotal n m)
                [0..<numSS]) [0..<numSS]"

text \<open>\<^verbatim>\<open>CheckTol\<close>, lines 669 to 678: true when no entry of the gradient exceeds its tolerance.\<close>

definition CheckTol :: "vec \<Rightarrow> vec \<Rightarrow> nat \<Rightarrow> bool" where
  "CheckTol Grad AbsTol numSS = list_all (\<lambda>i. \<not> \<bar>Grad ! i\<bar> > AbsTol ! i) [0..<numSS]"

subsection \<open>The search direction\<close>

text \<open>
  \<^verbatim>\<open>getSearchDir\<close>, lines 367 to 538. It returns the step \<open>p\<close> and the code 1 to 6.
  The copy of the Hessian holds the entries \<open>HesCopy[i][j]\<close> with \<open>j \<le> i\<close> only (lines
  404 to 408), so each of its rows is cut after the diagonal. \<open>pB\<close> is read only on
  the paths where the decomposition succeeded.
\<close>

definition getSearchDir :: "env \<Rightarrow> vec \<Rightarrow> mat \<Rightarrow> real \<Rightarrow> nat \<Rightarrow> vec \<times> nat" where
  "getSearchDir E Grad Hes delta numSS =
     (let delta2 = delta ^ 2;
          HesCopy = map (\<lambda>i. map (\<lambda>j. Hes ! i ! j) [0..<Suc i]) [0..<numSS];
          (CholSuccess, HesCopy') = choleskyDecomposition E HesCopy numSS;
          pB = map (\<lambda>i. choleskySolve E HesCopy' numSS Grad ! i * (- 1)) [0..<numSS];
          pB2 = (if CholSuccess = 1 then dot pB pB numSS else 0)
      in if CholSuccess = 1 \<and> pB2 \<le> delta2 then (map (\<lambda>i. pB ! i) [0..<numSS], 1)
         else
          (let HGrad = MatrixVectorMult Hes Grad numSS;
               mag1 = dot Grad Grad numSS;
               mag2 = dot Grad HGrad numSS;
               pUcoeff = mag1 / mag2;
               pU = map (\<lambda>i. pUcoeff * (- (Grad ! i))) [0..<numSS];
               pU2 = dot pU pU numSS
           in if pU2 \<ge> delta2 then
                (let tau = sqrt (delta2 / pU2) in
                 (map (\<lambda>i. tau * pU ! i) [0..<numSS], if CholSuccess \<noteq> 1 then 5 else 2))
              else if CholSuccess \<noteq> 1 then (map (\<lambda>i. pU ! i) [0..<numSS], 4)
              else
                (let pBpU = dot pB pU numSS;
                     a = pB2 + pU2 - 2 * pBpU;
                     b = 2 * (pBpU - pU2);
                     c = pU2 - delta2;
                     sgnb = (if b < 0 then - 1 else 1);
                     q = - 0.5 * (b + sgnb * sqrt (b * b - 4 * a * c));
                     x1 = q / a;
                     x2 = c / q
                 in if x2 \<ge> 0 \<and> x2 \<le> 1 then
                      (map (\<lambda>i. pU ! i + x2 * (pB ! i - pU ! i)) [0..<numSS], 3)
                    else if x1 \<ge> 0 \<and> x1 \<le> 1 then
                      (map (\<lambda>i. pU ! i + x1 * (pB ! i - pU ! i)) [0..<numSS], 3)
                    else (map (\<lambda>i. pU ! i) [0..<numSS], 6))))"

subsection \<open>The ratio rho\<close>

text \<open>
  \<^verbatim>\<open>getRho\<close>, lines 548 to 595. \<^verbatim>\<open>newx\<close> is a fresh buffer of \<open>numTotal\<close> entries, which
  \<^verbatim>\<open>getx\<close> overwrites when it succeeds.
\<close>

definition getRho :: "env \<Rightarrow> vec \<Rightarrow> vec \<Rightarrow> vec \<Rightarrow> vec \<Rightarrow> mat \<Rightarrow> vec \<Rightarrow> vec \<Rightarrow> imat \<Rightarrow> nat \<Rightarrow> nat \<Rightarrow> real" where
  "getRho E lambda p Grad x Hes x0 G AT numSS numTotal =
     (let negh = sum_vec x numTotal - dot lambda x0 numSS;
          newlambda = map (\<lambda>i. lambda ! i + p ! i) [0..<numSS];
          (ok, newx) = getx E (replicate numTotal 0) newlambda G AT numSS numTotal
      in if ok then
           (let NewNegh = sum_vec newx numTotal - dot newlambda x0 numSS;
                Hp = MatrixVectorMult Hes p numSS;
                pHp = dot p Hp numSS
            in (negh - NewNegh) / (- dot Grad p numSS - pHp / 2))
         else - 1)"

subsection \<open>Initial guess and perturbation\<close>

text \<open>
  \<^verbatim>\<open>PerturbLambda\<close>, lines 634 to 662. One round of the loop draws \<open>numSS\<close> numbers from
  the generator, tests the perturbed \<open>newlambda\<close> with \<^verbatim>\<open>getx\<close> on a scratch buffer, and
  halves \<^verbatim>\<open>PerturbScale\<close>. The loop ends when the test succeeds; the source gives it
  no other exit.
\<close>

partial_function (option) PerturbLambda_loop ::
  "env \<Rightarrow> vec \<Rightarrow> real \<Rightarrow> vec \<Rightarrow> imat \<Rightarrow> nat \<Rightarrow> nat \<Rightarrow> rng \<Rightarrow> (vec \<times> rng) option" where
  "PerturbLambda_loop E lambda PerturbScale G AT numSS numTotal gen =
     (let newlambda = map (\<lambda>i. lambda ! i + PerturbScale * 2 * (gen i - 0.5)) [0..<numSS];
          gen' = (\<lambda>n. gen (n + numSS));
          xOK = fst (getx E (replicate numTotal 0) newlambda G AT numSS numTotal)
      in if xOK then Some (newlambda, gen')
         else PerturbLambda_loop E lambda (PerturbScale / 2) G AT numSS numTotal gen')"

definition PerturbLambda ::
  "env \<Rightarrow> vec \<Rightarrow> real \<Rightarrow> vec \<Rightarrow> imat \<Rightarrow> nat \<Rightarrow> nat \<Rightarrow> rng \<Rightarrow> (vec \<times> rng) option" where
  "PerturbLambda E lambda PerturbScale G AT numSS numTotal gen =
     (case PerturbLambda_loop E lambda PerturbScale G AT numSS numTotal gen of
        None \<Rightarrow> None
      | Some (newlambda, gen') \<Rightarrow> Some (map (\<lambda>i. newlambda ! i) [0..<numSS], gen'))"

text \<open>
  \<^verbatim>\<open>getInitialGuess\<close>, lines 247 to 282: the smallest \<^verbatim>\<open>LambdaVal\<close> over the complexes,
  written to every entry of \<open>lambda\<close>; the perturbation when \<^verbatim>\<open>rand_seed\<close> is not 0; then
  the loop of lines 276 to 281 over the monomers, which overwrites \<open>lambda[i]\<close> where
  the row sum of \<open>A\<close> is 1.
\<close>

definition getInitialGuess ::
  "env \<Rightarrow> vec \<Rightarrow> vec \<Rightarrow> imat \<Rightarrow> imat \<Rightarrow> nat \<Rightarrow> nat \<Rightarrow> real \<Rightarrow> 64 word \<Rightarrow> rng \<Rightarrow> (vec \<times> rng) option" where
  "getInitialGuess E x0 G AT A numSS numTotal PerturbScale rand_seed gen =
     (let MaxLogx = 1;
          LambdaVal =
            fold (\<lambda>j LambdaVal.
                    let NewLambdaVal = (MaxLogx + G ! j) / real_of_int (sumint (AT ! j) numSS)
                    in if NewLambdaVal < LambdaVal then NewLambdaVal else LambdaVal)
                 [1..<numTotal]
                 ((MaxLogx + G ! 0) / real_of_int (sumint (AT ! 0) numSS));
          lambda = replicate numSS LambdaVal
      in case (if rand_seed \<noteq> 0 then PerturbLambda E lambda PerturbScale G AT numSS numTotal gen
               else Some (lambda, gen)) of
           None \<Rightarrow> None
         | Some (lambda', gen') \<Rightarrow>
             Some (fold (\<lambda>i lam. if sumint (A ! i) numTotal = 1
                                  then lam[i := ln (x0 ! i) + G ! FindNonZero (A ! i) numTotal]
                                  else lam)
                        [0..<numSS] lambda', gen'))"

subsection \<open>The trust-region driver\<close>

text \<open>The sixteen arguments of \<^verbatim>\<open>CalcConc\<close>; \<open>in_x\<close> is what the caller's buffer \<open>x\<close> holds.\<close>

record inputs =
  in_x :: vec
  in_A :: imat
  in_G :: vec
  in_x0 :: vec
  in_numSS :: nat
  in_numTotal :: nat
  in_MaxIters :: int
  in_tol :: real
  in_deltaBar :: real
  in_eta :: real
  in_kT :: real
  in_MaxNoStep :: int
  in_MaxTrial :: int
  in_PerturbScale :: real
  in_MolesWaterPerLiter :: real
  in_seed :: "64 word"

text \<open>
  The local variables of \<^verbatim>\<open>CalcConc\<close> that live across the iterations of its loops, and
  the state of the generator. The counters \<^verbatim>\<open>iters\<close> and \<^verbatim>\<open>nTrial\<close> are arguments of the
  two loop functions.
\<close>

record locals =
  l_x :: vec
  l_lambda :: vec
  l_Grad :: vec
  l_delta :: real
  l_nNoStep :: int
  l_RunStats :: "int list"
  l_rand_seed :: "64 word"
  l_gen :: rng

definition AbsTol_of :: "inputs \<Rightarrow> vec" where
  "AbsTol_of I = map (\<lambda>i. in_tol I * in_x0 I ! i) [0..<in_numSS I]"

text \<open>The Hessian, the step with its code, and rho of one iteration (lines 156 to 162).\<close>

definition step_Hes :: "inputs \<Rightarrow> locals \<Rightarrow> mat" where
  "step_Hes I st = getHes (l_x st) (in_A I) (in_numSS I) (in_numTotal I)"

definition step_dir :: "env \<Rightarrow> inputs \<Rightarrow> locals \<Rightarrow> vec \<times> nat" where
  "step_dir E I st = getSearchDir E (l_Grad st) (step_Hes I st) (l_delta st) (in_numSS I)"

definition step_rho :: "env \<Rightarrow> inputs \<Rightarrow> imat \<Rightarrow> locals \<Rightarrow> real" where
  "step_rho E I AT st =
     getRho E (l_lambda st) (fst (step_dir E I st)) (l_Grad st) (l_x st) (step_Hes I st)
       (in_x0 I) (in_G I) AT (in_numSS I) (in_numTotal I)"

text \<open>The body of the inner loop, lines 155 to 190 (the increment of \<^verbatim>\<open>iters\<close> apart).\<close>

definition CalcConc_step :: "env \<Rightarrow> inputs \<Rightarrow> imat \<Rightarrow> locals \<Rightarrow> error + locals" where
  "CalcConc_step E I AT st =
     (let (p, code) = step_dir E I st;
          RunStats = (l_RunStats st)[code - 1 := l_RunStats st ! (code - 1) + 1];
          rho = step_rho E I AT st;
          delta = (if rho < 0.25 then l_delta st / 4
                   else if rho > 0.75 \<and> \<bar>norm_vec p (in_numSS I) - l_delta st\<bar> < NUM_PRECISION E
                        then min2 (2 * l_delta st) (in_deltaBar I)
                   else l_delta st);
          (lambda, nNoStep) =
            (if rho > in_eta I
             then (map (\<lambda>i. l_lambda st ! i + p ! i) [0..<in_numSS I], 0)
             else (l_lambda st, l_nNoStep st + 1));
          (ok, x) = getx E (l_x st) lambda (in_G I) AT (in_numSS I) (in_numTotal I)
      in if \<not> ok then Inl ERR_OVERFLOW
         else Inr (st\<lparr>l_x := x, l_lambda := lambda,
                      l_Grad := getGrad (in_x0 I) x (in_A I) (in_numSS I) (in_numTotal I),
                      l_delta := delta, l_nNoStep := nNoStep, l_RunStats := RunStats\<rparr>))"

text \<open>The test of the inner loop, lines 152 and 153.\<close>

definition inner_guard :: "inputs \<Rightarrow> int \<Rightarrow> locals \<Rightarrow> bool" where
  "inner_guard I iters st \<longleftrightarrow>
     iters < in_MaxIters I \<and> \<not> CheckTol (l_Grad st) (AbsTol_of I) (in_numSS I)
     \<and> l_nNoStep st < in_MaxNoStep I"

function CalcConc_inner :: "env \<Rightarrow> inputs \<Rightarrow> imat \<Rightarrow> int \<Rightarrow> locals \<Rightarrow> error + locals" where
  "CalcConc_inner E I AT iters st =
     (if inner_guard I iters st then
        (case CalcConc_step E I AT st of
           Inl e \<Rightarrow> Inl e
         | Inr st' \<Rightarrow> CalcConc_inner E I AT (iters + 1) st')
      else Inr st)"
  by pat_completeness auto
termination
  by (relation "measure (\<lambda>(E, I, AT, iters, st). nat (in_MaxIters I - iters))")
     (auto simp: inner_guard_def)

declare CalcConc_inner.simps [simp del]

text \<open>
  The head of one trial, lines 121 to 149: the seeding when \<^verbatim>\<open>nTrial\<close> is 1, the initial
  guess, \<open>x\<close> and the gradient, and the initialisations. It gives the locals with which
  the inner loop is entered.
\<close>

definition trial_start :: "env \<Rightarrow> inputs \<Rightarrow> imat \<Rightarrow> int \<Rightarrow> locals \<Rightarrow> (error + locals) option" where
  "trial_start E I AT nTrial st =
     (let (rand_seed, gen) =
            (if nTrial = 1
             then (let rand_seed = GetRandSeed E (in_seed I) in (rand_seed, init_genrand E rand_seed))
             else (l_rand_seed st, l_gen st))
      in case getInitialGuess E (in_x0 I) (in_G I) AT (in_A I) (in_numSS I) (in_numTotal I)
                (in_PerturbScale I) rand_seed gen of
           None \<Rightarrow> None
         | Some (lambda, gen') \<Rightarrow>
            (let (ok, x) = getx E (l_x st) lambda (in_G I) AT (in_numSS I) (in_numTotal I)
             in if \<not> ok then Some (Inl ERR_OVERFLOW)
                else Some (Inr
                  \<lparr>l_x = x, l_lambda = lambda,
                   l_Grad = getGrad (in_x0 I) x (in_A I) (in_numSS I) (in_numTotal I),
                   l_delta = 0.99 * in_deltaBar I, l_nNoStep = 0,
                   l_RunStats = [0, 0, 0, 0, 0, 0],
                   l_rand_seed = rand_seed, l_gen = gen'\<rparr>)))"

text \<open>One trial, lines 121 to 191: its head, then the inner loop from \<^verbatim>\<open>iters = 0\<close>.\<close>

definition CalcConc_trial :: "env \<Rightarrow> inputs \<Rightarrow> imat \<Rightarrow> int \<Rightarrow> locals \<Rightarrow> (error + locals) option" where
  "CalcConc_trial E I AT nTrial st =
     (case trial_start E I AT nTrial st of
        None \<Rightarrow> None
      | Some (Inl e) \<Rightarrow> Some (Inl e)
      | Some (Inr st0) \<Rightarrow> Some (CalcConc_inner E I AT 0 st0))"

text \<open>
  The states in which the test of the inner loop is reached during a trial that enters
  the loop with \<open>st0\<close>, each with the value of \<^verbatim>\<open>iters\<close>.
\<close>

inductive_set trial_states :: "env \<Rightarrow> inputs \<Rightarrow> imat \<Rightarrow> locals \<Rightarrow> (int \<times> locals) set"
  for E :: env and I :: inputs and AT :: imat and st0 :: locals where
  start: "(0, st0) \<in> trial_states E I AT st0"
| step: "(iters, st) \<in> trial_states E I AT st0 \<Longrightarrow> inner_guard I iters st \<Longrightarrow>
         CalcConc_step E I AT st = Inr st' \<Longrightarrow> (iters + 1, st') \<in> trial_states E I AT st0"

text \<open>The loop of the trials, lines 119 to 195; it returns \<^verbatim>\<open>nTrial\<close> and the locals at its exit.\<close>

function CalcConc_outer ::
  "env \<Rightarrow> inputs \<Rightarrow> imat \<Rightarrow> int \<Rightarrow> locals \<Rightarrow> (error + int \<times> locals) option" where
  "CalcConc_outer E I AT nTrial st =
     (if \<not> CheckTol (l_Grad st) (AbsTol_of I) (in_numSS I) \<and> nTrial < in_MaxTrial I then
        (case CalcConc_trial E I AT nTrial st of
           None \<Rightarrow> None
         | Some (Inl e) \<Rightarrow> Some (Inl e)
         | Some (Inr st') \<Rightarrow> CalcConc_outer E I AT (nTrial + 1) st')
      else Some (Inr (nTrial, st)))"
  by pat_completeness auto
termination
  by (relation "measure (\<lambda>(E, I, AT, nTrial, st). nat (in_MaxTrial I - nTrial))") auto

declare CalcConc_outer.simps [simp del]

text \<open>
  The locals before the first trial, lines 90 to 118. \<open>lambda\<close>, \<open>delta\<close>, \<open>nNoStep\<close> and
  \<open>RunStats\<close> hold no value yet in the source (each is written before it is read); they
  are 0 here. \<open>gen\<close> is the state in which the call finds the generator.
\<close>

definition CalcConc_init :: "inputs \<Rightarrow> rng \<Rightarrow> locals" where
  "CalcConc_init I gen =
     \<lparr>l_x = in_x I, l_lambda = replicate (in_numSS I) 0,
      l_Grad = map (\<lambda>i. AbsTol_of I ! i + 1) [0..<in_numSS I],
      l_delta = 0, l_nNoStep = 0, l_RunStats = [0, 0, 0, 0, 0, 0],
      l_rand_seed = 0, l_gen = gen\<rparr>"

text \<open>The free energy that lines 198 to 210 leave in the local \<^verbatim>\<open>FreeEnergy\<close>.\<close>

definition FreeEnergy_of :: "inputs \<Rightarrow> vec \<Rightarrow> real" where
  "FreeEnergy_of I x =
     ((\<Sum>i\<leftarrow>[0..<in_numSS I]. in_x0 I ! i * (1 - ln (in_x0 I ! i)))
      + (\<Sum>j\<leftarrow>[0..<in_numTotal I]. if x ! j > 0 then x ! j * (ln (x ! j) + in_G I ! j - 1) else 0))
     * (in_kT I * in_MolesWaterPerLiter I)"

text \<open>
  The run of \<^verbatim>\<open>CalcConc\<close> up to its \<^verbatim>\<open>return\<close>: \<open>nTrial\<close>, the locals and the free energy
  as they are when line 228 is reached.
\<close>

definition CalcConc_run :: "env \<Rightarrow> inputs \<Rightarrow> rng \<Rightarrow> (error + int \<times> locals \<times> real) option" where
  "CalcConc_run E I gen =
     (let AT = IntTranspose (in_A I) (in_numSS I) (in_numTotal I) in
      case CalcConc_outer E I AT 0 (CalcConc_init I gen) of
        None \<Rightarrow> None
      | Some (Inl e) \<Rightarrow> Some (Inl e)
      | Some (Inr (nTrial, st)) \<Rightarrow> Some (Inr (nTrial, st, FreeEnergy_of I (l_x st))))"

text \<open>
  What the call leaves to its caller: the value returned (lines 228 to 233), the
  buffer \<open>x\<close>, and the state of the generator.
\<close>

record outcome =
  converged :: bool
  out_x :: vec
  out_gen :: rng

definition CalcConc :: "env \<Rightarrow> inputs \<Rightarrow> rng \<Rightarrow> (error + outcome) option" where
  "CalcConc E I gen =
     (case CalcConc_run E I gen of
        None \<Rightarrow> None
      | Some (Inl e) \<Rightarrow> Some (Inl e)
      | Some (Inr (nTrial, st, FreeEnergy)) \<Rightarrow>
          Some (Inr \<lparr>converged = (if nTrial = in_MaxTrial I then False else True),
                     out_x = l_x st, out_gen = l_gen st\<rparr>))"

subsection \<open>The dogleg decision in the words of the specification\<close>

text \<open>
  Section 4.6 of the specification, written with operations on whole vectors: the inner
  product, the squared norm, the multiple of a vector and the product of a matrix and
  a vector. \<open>dogleg_spec\<close> is compared with \<open>getSearchDir\<close> below.
\<close>

definition inner_prod :: "vec \<Rightarrow> vec \<Rightarrow> real" where
  "inner_prod u v = (\<Sum>(a, b)\<leftarrow>zip u v. a * b)"

definition norm2 :: "vec \<Rightarrow> real" where
  "norm2 v = inner_prod v v"

definition scale :: "real \<Rightarrow> vec \<Rightarrow> vec" where
  "scale c v = map (\<lambda>a. c * a) v"

definition mat_vec :: "mat \<Rightarrow> vec \<Rightarrow> vec" where
  "mat_vec M v = map (\<lambda>row. inner_prod row v) M"

text \<open>The six classifications, and the code that \<^verbatim>\<open>getSearchDir\<close> returns for each.\<close>

datatype step_class =
  Newton | CauchyBoundary | Dogleg | ForcedCauchy | HarmlessCholeskyFail | DoglegFail

fun class_code :: "step_class \<Rightarrow> nat" where
  "class_code Newton = 1"
| "class_code CauchyBoundary = 2"
| "class_code Dogleg = 3"
| "class_code ForcedCauchy = 4"
| "class_code HarmlessCholeskyFail = 5"
| "class_code DoglegFail = 6"

text \<open>
  The Newton step of section 4.5: Cholesky on a copy of the triangle of \<open>Hes\<close>, the
  solution of \<open>Hes pB = Grad\<close>, negated; \<open>None\<close> when the decomposition fails.
\<close>

definition newton_step :: "env \<Rightarrow> vec \<Rightarrow> mat \<Rightarrow> nat \<Rightarrow> vec option" where
  "newton_step E Grad Hes n =
     (let (ok, L) = choleskyDecomposition E (map (\<lambda>i. take (Suc i) (Hes ! i)) [0..<n]) n
      in if ok = 1 then Some (scale (- 1) (take n (choleskySolve E L n Grad))) else None)"

text \<open>The Cauchy direction \<open>pU = - (<Grad, Grad> / <Grad, Hes Grad>) Grad\<close>.\<close>

definition cauchy_dir :: "vec \<Rightarrow> mat \<Rightarrow> vec" where
  "cauchy_dir Grad Hes = scale (- (inner_prod Grad Grad / inner_prod Grad (mat_vec Hes Grad))) Grad"

text \<open>The point \<open>pU + alpha (pB - pU)\<close> of the dogleg path.\<close>

definition along :: "vec \<Rightarrow> vec \<Rightarrow> real \<Rightarrow> vec" where
  "along pU pB alpha = map2 (\<lambda>u b. u + alpha * (b - u)) pU pB"

text \<open>
  The decision of section 4.6, steps 1 to 4. The sign of \<open>b\<close> in \<open>q\<close> is taken as 1 at
  \<open>b = 0\<close>.
\<close>

definition dogleg_spec :: "env \<Rightarrow> vec \<Rightarrow> mat \<Rightarrow> real \<Rightarrow> nat \<Rightarrow> vec \<times> step_class" where
  "dogleg_spec E Grad Hes Delta n =
     (let d2 = Delta\<^sup>2; pU = cauchy_dir Grad Hes in
      case newton_step E Grad Hes n of
        Some pB \<Rightarrow>
          if norm2 pB \<le> d2 then (pB, Newton)
          else if norm2 pU \<ge> d2 then (scale (sqrt (d2 / norm2 pU)) pU, CauchyBoundary)
          else
            (let a = norm2 pB + norm2 pU - 2 * inner_prod pB pU;
                 b = 2 * (inner_prod pB pU - norm2 pU);
                 c = norm2 pU - d2;
                 q = - (1 / 2) * (b + (if b < 0 then - 1 else 1) * sqrt (b\<^sup>2 - 4 * a * c))
             in if 0 \<le> c / q \<and> c / q \<le> 1 then (along pU pB (c / q), Dogleg)
                else if 0 \<le> q / a \<and> q / a \<le> 1 then (along pU pB (q / a), Dogleg)
                else (pU, DoglegFail))
      | None \<Rightarrow>
          if norm2 pU \<ge> d2 then (scale (sqrt (d2 / norm2 pU)) pU, HarmlessCholeskyFail)
          else (pU, ForcedCauchy))"

subsection \<open>Predicates on the locals\<close>


subsection \<open>A sample environment\<close>

text \<open>
  Constants and a one-dimensional Cholesky solver to evaluate the functions on concrete
  inputs: the decomposition of the 1 by 1 matrix succeeds when its entry is positive,
  and the solver divides by that entry. The generator returns 3/4 at every draw.
\<close>

abbreviation sample_env :: env where
  "sample_env \<equiv> \<lparr>MAXLOGX = 250, NUM_PRECISION = 1 / 10 ^ 12, GetRandSeed = (\<lambda>s. s),
     init_genrand = (\<lambda>s n. 3 / 4),
     choleskyDecomposition = (\<lambda>M n. (if 0 < M ! 0 ! 0 then 1 else 0, M)),
     choleskySolve = (\<lambda>M n b. [b ! 0 / M ! 0 ! 0])\<rparr>"


text \<open>
  A system of one monomer whose only complex holds it twice, and locals of the driver
  for it: \<open>x\<close> and the gradient are those of \<open>lambda = 0\<close>, and the Newton step from
  there is 250.
\<close>

abbreviation dimer_inputs :: inputs where
  "dimer_inputs \<equiv> \<lparr>in_x = [1], in_A = [[2]], in_G = [0], in_x0 = [1002], in_numSS = 1,
     in_numTotal = 1, in_MaxIters = 10, in_tol = 1 / 10 ^ 7, in_deltaBar = 1000, in_eta = 1 / 8,
     in_kT = 1, in_MaxNoStep = 5, in_MaxTrial = 3, in_PerturbScale = 1,
     in_MolesWaterPerLiter = 55, in_seed = 1\<rparr>"

abbreviation dimer_state :: locals where
  "dimer_state \<equiv> \<lparr>l_x = [1], l_lambda = [0], l_Grad = [- 1000], l_delta = 990, l_nNoStep = 0,
     l_RunStats = [0, 0, 0, 0, 0, 0], l_rand_seed = 0, l_gen = (\<lambda>n. 3 / 4)\<rparr>"

text \<open>
  A system of one monomer and its own complex, with \<^verbatim>\<open>MaxTrial\<close> and \<open>kT\<close> left open,
  and the locals with which its first trial ends: the initial guess already gives
  \<open>x = x0\<close> and a zero gradient.
\<close>

abbreviation inert_inputs :: "int \<Rightarrow> real \<Rightarrow> inputs" where
  "inert_inputs MaxTrial kT \<equiv> \<lparr>in_x = [0], in_A = [[1]], in_G = [1], in_x0 = [1], in_numSS = 1,
     in_numTotal = 1, in_MaxIters = 10000, in_tol = 1 / 10 ^ 7, in_deltaBar = 1000, in_eta = 1 / 8,
     in_kT = kT, in_MaxNoStep = 50, in_MaxTrial = MaxTrial, in_PerturbScale = 100,
     in_MolesWaterPerLiter = 55, in_seed = 0\<rparr>"

abbreviation inert_final :: "rng \<Rightarrow> locals" where
  "inert_final gen \<equiv> \<lparr>l_x = [1], l_lambda = [1], l_Grad = [0], l_delta = 990, l_nNoStep = 0,
     l_RunStats = [0, 0, 0, 0, 0, 0], l_rand_seed = 0, l_gen = gen\<rparr>"

section \<open>Properties\<close>

subsection \<open>The parameter map\<close>

lemma getx_from_length: "length (snd (getx_from E j x lambda G AT numSS numTotal)) = length x"
  by (induction E j x lambda G AT numSS numTotal rule: getx_from.induct)
     (subst getx_from.simps, simp add: Let_def)

lemma getx_from_flag:
  "fst (getx_from E j x lambda G AT numSS numTotal) \<longleftrightarrow>
     (\<forall>k. j \<le> k \<and> k < numTotal \<longrightarrow> logx_at lambda G AT numSS k \<le> MAXLOGX E)"
proof (induction E j x lambda G AT numSS numTotal rule: getx_from.induct)
  case (1 E j x lambda G AT numSS numTotal)
  show ?case
  proof (cases "j < numTotal")
    case False
    then show ?thesis by (subst getx_from.simps) simp
  next
    case True
    show ?thesis
    proof (cases "logx_at lambda G AT numSS j > MAXLOGX E")
      case over: True
      with True show ?thesis
        by (subst getx_from.simps) (auto simp: Let_def)
    next
      case False
      have "(\<forall>k. j \<le> k \<and> k < numTotal \<longrightarrow> logx_at lambda G AT numSS k \<le> MAXLOGX E) \<longleftrightarrow>
            (\<forall>k. Suc j \<le> k \<and> k < numTotal \<longrightarrow> logx_at lambda G AT numSS k \<le> MAXLOGX E)"
        using False by (metis Suc_leI le_neq_implies_less not_less Suc_leD)
      with True False "1.IH"[OF True refl] show ?thesis
        by (subst getx_from.simps) (simp add: Let_def)
    qed
  qed
qed

lemma getx_from_old:
  "k < j \<Longrightarrow> snd (getx_from E j x lambda G AT numSS numTotal) ! k = x ! k"
proof (induction E j x lambda G AT numSS numTotal rule: getx_from.induct)
  case (1 E j x lambda G AT numSS numTotal)
  show ?case
  proof (cases "j < numTotal \<and> \<not> logx_at lambda G AT numSS j > MAXLOGX E")
    case False
    then show ?thesis by (subst getx_from.simps) (auto simp: Let_def)
  next
    case True
    then have "snd (getx_from E (Suc j) (x[j := exp (logx_at lambda G AT numSS j)]) lambda G AT numSS numTotal) ! k
       = (x[j := exp (logx_at lambda G AT numSS j)]) ! k"
      using "1.IH"[OF _ refl] "1.prems" by simp
    with True "1.prems" show ?thesis
      by (subst getx_from.simps) (simp add: Let_def)
  qed
qed

lemma getx_from_prefix:
  "j \<le> m \<Longrightarrow> m \<le> numTotal \<Longrightarrow> numTotal \<le> length x \<Longrightarrow>
   (\<forall>k. j \<le> k \<and> k < m \<longrightarrow> logx_at lambda G AT numSS k \<le> MAXLOGX E) \<Longrightarrow>
   (m < numTotal \<longrightarrow> logx_at lambda G AT numSS m > MAXLOGX E) \<Longrightarrow>
   snd (getx_from E j x lambda G AT numSS numTotal) ! k =
     (if j \<le> k \<and> k < m then exp (logx_at lambda G AT numSS k) else x ! k)"
proof (induction E j x lambda G AT numSS numTotal rule: getx_from.induct)
  case (1 E j x lambda G AT numSS numTotal)
  show ?case
  proof (cases "j = m")
    case True
    with "1.prems" show ?thesis by (subst getx_from.simps) (auto simp: Let_def)
  next
    case False
    with "1.prems" have jm: "j < m" "j < numTotal" "\<not> logx_at lambda G AT numSS j > MAXLOGX E"
      by (auto simp: not_less)
    let ?x' = "x[j := exp (logx_at lambda G AT numSS j)]"
    have "snd (getx_from E (Suc j) ?x' lambda G AT numSS numTotal) ! k =
      (if Suc j \<le> k \<and> k < m then exp (logx_at lambda G AT numSS k) else ?x' ! k)"
      using "1.IH"[OF jm(2) refl jm(3)] jm "1.prems" by simp
    moreover have "j < length x" using jm "1.prems" by simp
    ultimately show ?thesis using jm
      by (subst getx_from.simps) (auto simp: Let_def nth_list_update)
  qed
qed



text \<open>
  Claim C4. For every \<open>lambda\<close>, \<open>G\<close> and \<open>AT\<close>, \<^verbatim>\<open>getx\<close> signals overflow (returns 0) if and
  only if some complex \<open>j\<close> has \<open>- G[j] + <lambda, AT[j]> > MAXLOGX\<close>; when it succeeds it
  has set \<open>x[j] = exp (- G[j] + <lambda, AT[j]>)\<close> for every \<open>j\<close>. The function reads
  \<open>lambda\<close> and \<open>G\<close> and writes \<open>x\<close> only: its result is the flag and the array \<open>x\<close>.
\<close>

theorem getx_overflow_iff:
  assumes "length x = numTotal"
  shows "(fst (getx E x lambda G AT numSS numTotal) = False \<longleftrightarrow>
            (\<exists>j<numTotal. - (G ! j) + didot lambda (AT ! j) numSS > MAXLOGX E))
       \<and> (fst (getx E x lambda G AT numSS numTotal) \<longrightarrow>
            (\<forall>j<numTotal. snd (getx E x lambda G AT numSS numTotal) ! j
                            = exp (- (G ! j) + didot lambda (AT ! j) numSS)))
       \<and> length (snd (getx E x lambda G AT numSS numTotal)) = numTotal"
proof (intro conjI impI allI)
  show "fst (getx E x lambda G AT numSS numTotal) = False \<longleftrightarrow>
            (\<exists>j<numTotal. - (G ! j) + didot lambda (AT ! j) numSS > MAXLOGX E)"
    unfolding getx_def getx_from_flag logx_at_def by (auto simp: not_le)
next
  fix j assume ok: "fst (getx E x lambda G AT numSS numTotal)" and j: "j < numTotal"
  from ok have all: "\<forall>k. 0 \<le> k \<and> k < numTotal \<longrightarrow> logx_at lambda G AT numSS k \<le> MAXLOGX E"
    unfolding getx_def getx_from_flag by simp
  have "snd (getx_from E 0 x lambda G AT numSS numTotal) ! j =
     (if 0 \<le> j \<and> j < numTotal then exp (logx_at lambda G AT numSS j) else x ! j)"
    by (rule getx_from_prefix) (use all assms in auto)
  with j show "snd (getx E x lambda G AT numSS numTotal) ! j
                 = exp (- (G ! j) + didot lambda (AT ! j) numSS)"
    by (simp add: getx_def logx_at_def)
next
  show "length (snd (getx E x lambda G AT numSS numTotal)) = numTotal"
    by (simp add: getx_def getx_from_length assms)
qed

theorem getx_overflow_iff_witness:
  "length [0::real] = 1
   \<and> fst (getx sample_env [0] [0] [0] [[1]] 1 1)
   \<and> snd (getx sample_env [0] [0] [0] [[1]] 1 1) ! 0 = 1
   \<and> \<not> fst (getx sample_env [0] [251] [0] [[1]] 1 1)"
  using getx_overflow_iff [where x = "[0]" and numTotal = 1 and E = sample_env and lambda = "[0]"
          and G = "[0]" and AT = "[[1]]" and numSS = 1]
        getx_overflow_iff [where x = "[0]" and numTotal = 1 and E = sample_env and lambda = "[251]"
          and G = "[0]" and AT = "[[1]]" and numSS = 1]
  by (simp add: didot_def)


text \<open>
  Claim C10. When \<^verbatim>\<open>getx\<close> signals overflow at the complex \<open>j\<close> (the first index whose
  \<open>logx\<close> exceeds \<^verbatim>\<open>MAXLOGX\<close>), the entries \<open>x[0..j-1]\<close> hold the newly computed mole
  fractions and the entries from \<open>j\<close> on hold what they held before: the array is not
  left unchanged on error.
\<close>

theorem getx_overflow_partial_write:
  assumes "length x = numTotal" and "j < numTotal"
    and "logx_at lambda G AT numSS j > MAXLOGX E"
    and "\<forall>k<j. logx_at lambda G AT numSS k \<le> MAXLOGX E"
  shows "getx E x lambda G AT numSS numTotal =
           (False, map (\<lambda>k. exp (logx_at lambda G AT numSS k)) [0..<j] @ drop j x)"
proof -
  let ?r = "getx E x lambda G AT numSS numTotal"
  have flag: "fst ?r = False"
    unfolding getx_def getx_from_flag using assms(2,3) by (auto simp: not_le intro!: exI[of _ j])
  have nth: "snd ?r ! k = (if 0 \<le> k \<and> k < j then exp (logx_at lambda G AT numSS k) else x ! k)" for k
    unfolding getx_def by (rule getx_from_prefix) (use assms in auto)
  have len: "length (snd ?r) = length x"
    by (simp add: getx_def getx_from_length)
  have "snd ?r = map (\<lambda>k. exp (logx_at lambda G AT numSS k)) [0..<j] @ drop j x"
  proof (rule nth_equalityI)
    show "length (snd ?r) = length (map (\<lambda>k. exp (logx_at lambda G AT numSS k)) [0..<j] @ drop j x)"
      using len assms(1,2) by simp
  next
    fix i assume "i < length (snd ?r)"
    then have "i < length x" using len by simp
    then show "snd ?r ! i = (map (\<lambda>k. exp (logx_at lambda G AT numSS k)) [0..<j] @ drop j x) ! i"
      using assms(1,2) by (simp add: nth nth_append)
  qed
  with flag show ?thesis by (simp add: prod_eq_iff)
qed

theorem getx_overflow_partial_write_witness:
  "getx sample_env [7, 8, 9] [0] [0, - 300, 0] [[1], [1], [1]] 1 3 = (False, [1, 8, 9])"
  using getx_overflow_partial_write [where x = "[7, 8, 9]" and numTotal = 3 and j = 1
          and lambda = "[0]" and G = "[0, - 300, 0]" and AT = "[[1], [1], [1]]" and numSS = 1
          and E = sample_env]
  by (simp add: logx_at_def didot_def)


lemma getx_flag:
  "fst (getx E x lambda G AT numSS numTotal) \<longleftrightarrow>
     (\<forall>k<numTotal. logx_at lambda G AT numSS k \<le> MAXLOGX E)"
  by (simp add: getx_def getx_from_flag)


subsection \<open>The initial guess\<close>












subsection \<open>One iteration of the trust-region loop\<close>

lemma getx_flag_buffer:
  "fst (getx E y lambda G AT numSS numTotal) = fst (getx E x lambda G AT numSS numTotal)"
  by (simp add: getx_flag)

lemma getRho_overflow:
  assumes "\<not> fst (getx E (replicate numTotal 0) (map (\<lambda>i. lambda ! i + p ! i) [0..<numSS]) G AT numSS numTotal)"
  shows "getRho E lambda p Grad x Hes x0 G AT numSS numTotal = - 1"
proof -
  obtain ok newx where g: "getx E (replicate numTotal 0) (map (\<lambda>i. lambda ! i + p ! i) [0..<numSS])
      G AT numSS numTotal = (ok, newx)"
    by (cases "getx E (replicate numTotal 0) (map (\<lambda>i. lambda ! i + p ! i) [0..<numSS]) G AT numSS numTotal")
  with assms have "\<not> ok" by simp
  with g show ?thesis by (simp add: getRho_def Let_def)
qed

lemma CalcConc_step_feasible:
  assumes "CalcConc_step E I AT st = Inr st'"
  shows "fst (getx E y (l_lambda st') (in_G I) AT (in_numSS I) (in_numTotal I))"
proof -
  from assms have "fst (getx E (l_x st) (l_lambda st') (in_G I) AT (in_numSS I) (in_numTotal I))"
    by (auto simp: CalcConc_step_def Let_def split: prod.splits if_splits)
  then show ?thesis by (simp add: getx_flag)
qed

lemma trial_start_feasible:
  assumes "trial_start E I AT nTrial st = Some (Inr st0)"
  shows "fst (getx E y (l_lambda st0) (in_G I) AT (in_numSS I) (in_numTotal I))"
proof -
  from assms have "fst (getx E (l_x st) (l_lambda st0) (in_G I) AT (in_numSS I) (in_numTotal I))"
    by (auto simp: trial_start_def Let_def split: prod.splits if_splits option.splits)
  then show ?thesis by (simp add: getx_flag)
qed

lemma trial_start_delta:
  "trial_start E I AT nTrial st = Some (Inr st0) \<Longrightarrow> l_delta st0 = 0.99 * in_deltaBar I"
  by (auto simp: trial_start_def Let_def split: prod.splits if_splits option.splits)

lemma CalcConc_inner_states:
  "CalcConc_inner E I AT iters st = Inr st' \<Longrightarrow> (iters, st) \<in> trial_states E I AT st0 \<Longrightarrow>
   \<exists>n. (n, st') \<in> trial_states E I AT st0"
proof (induction E I AT iters st rule: CalcConc_inner.induct)
  case (1 E I AT iters st)
  show ?case
  proof (cases "inner_guard I iters st")
    case False
    with "1.prems" show ?thesis by (auto simp: CalcConc_inner.simps)
  next
    case True
    with "1.prems"(1) obtain st1 where s: "CalcConc_step E I AT st = Inr st1"
      and r: "CalcConc_inner E I AT (iters + 1) st1 = Inr st'"
      by (subst (asm) CalcConc_inner.simps) (auto split: sum.splits)
    from trial_states.step[OF "1.prems"(2) True s]
    have "(iters + 1, st1) \<in> trial_states E I AT st0" .
    from "1.IH"[OF True s r this] show ?thesis .
  qed
qed

lemma trial_states_feasible:
  assumes "(iters, st) \<in> trial_states E I AT st0"
    and "fst (getx E (l_x st0) (l_lambda st0) (in_G I) AT (in_numSS I) (in_numTotal I))"
  shows "fst (getx E y (l_lambda st) (in_G I) AT (in_numSS I) (in_numTotal I))"
  using assms
proof (induction rule: trial_states.induct)
  case start
  then show ?case by (simp add: getx_flag)
next
  case (step iters st st')
  then show ?case by (simp add: CalcConc_step_feasible)
qed

lemma CalcConc_step_delta:
  assumes "CalcConc_step E I AT st = Inr st'"
  shows "l_delta st' =
     (if step_rho E I AT st < 0.25 then l_delta st / 4
      else if step_rho E I AT st > 0.75
              \<and> \<bar>norm_vec (fst (step_dir E I st)) (in_numSS I) - l_delta st\<bar> < NUM_PRECISION E
           then min (2 * l_delta st) (in_deltaBar I)
      else l_delta st)"
proof -
  obtain p code where pc: "step_dir E I st = (p, code)" by (cases "step_dir E I st")
  have m: "min2 a b = min a b" for a b by (simp add: min2_def min_def)
  from assms pc show ?thesis
    by (auto simp: CalcConc_step_def Let_def m split: prod.splits if_splits)
qed

lemma dimer_dir: "step_dir sample_env dimer_inputs dimer_state = ([250], 1)"
  by (simp add: step_dir_def step_Hes_def getHes_def Hes_entry_def getSearchDir_def dot_def Let_def)

lemma dimer_feasible: "fst (getx sample_env [1] [0] [0] [[2]] 1 1)"
  by (simp add: getx_flag logx_at_def didot_def)

lemma dimer_overflow: "\<not> fst (getx sample_env [0] [250] [0] [[2]] 1 1)"
  by (simp add: getx_flag logx_at_def didot_def)

lemma dimer_step:
  "CalcConc_step sample_env dimer_inputs [[2]] dimer_state =
     Inr (dimer_state\<lparr>l_delta := 495 / 2, l_nNoStep := 1, l_RunStats := [1, 0, 0, 0, 0, 0]\<rparr>)"
proof -
  have rho: "step_rho sample_env dimer_inputs [[2]] dimer_state = - 1"
    unfolding step_rho_def by (rule getRho_overflow) (use dimer_overflow dimer_dir in simp)
  have g: "getx sample_env [1] [0] [0] [[2]] 1 1 = (True, [1])"
    by (simp add: getx_def getx_from.simps logx_at_def didot_def)
  show ?thesis using g dimer_dir rho
    by (simp add: CalcConc_step_def getGrad_def didot_def)
qed


text \<open>
  Claim C8. If the evaluation of \<open>x(lambda + p)\<close> inside the computation of rho
  overflows, \<^verbatim>\<open>getRho\<close> returns -1 and, for any \<open>eta\<close> in (0, 1/4), the driver rejects
  the step: \<open>lambda\<close> is unchanged, \<^verbatim>\<open>nNoStep\<close> is incremented, and the iteration ends
  without \<^verbatim>\<open>exit(ERR_OVERFLOW)\<close>, so that the loop goes on to its next test. The state is
  any state of a trial whose entry state has an overflow-free \<open>lambda\<close>, as the head of
  the trial leaves it (\<open>trial_start_feasible\<close>).
\<close>

theorem trial_overflow_rejects_step:
  assumes "0 < in_eta I" and "in_eta I < 1 / 4"
    and "fst (getx E (l_x st0) (l_lambda st0) (in_G I) AT (in_numSS I) (in_numTotal I))"
    and "(iters, st) \<in> trial_states E I AT st0"
    and "\<not> fst (getx E (replicate (in_numTotal I) 0)
                 (map (\<lambda>i. l_lambda st ! i + fst (step_dir E I st) ! i) [0..<in_numSS I])
                 (in_G I) AT (in_numSS I) (in_numTotal I))"
  shows "step_rho E I AT st = - 1
       \<and> (\<exists>st'. CalcConc_step E I AT st = Inr st' \<and> l_lambda st' = l_lambda st
                \<and> l_nNoStep st' = l_nNoStep st + 1)"
proof -
  have rho: "step_rho E I AT st = - 1"
    unfolding step_rho_def by (rule getRho_overflow) (rule assms(5))
  have feas: "fst (getx E (l_x st) (l_lambda st) (in_G I) AT (in_numSS I) (in_numTotal I))"
    by (rule trial_states_feasible[OF assms(4,3)])
  obtain p code where pc: "step_dir E I st = (p, code)" by (cases "step_dir E I st")
  obtain ok x where g: "getx E (l_x st) (l_lambda st) (in_G I) AT (in_numSS I) (in_numTotal I) = (ok, x)"
    by (cases "getx E (l_x st) (l_lambda st) (in_G I) AT (in_numSS I) (in_numTotal I)")
  with feas have ok by simp
  with rho pc g assms(1) show ?thesis
    by (simp add: CalcConc_step_def Let_def)
qed

theorem trial_overflow_rejects_step_witness:
  "step_rho sample_env dimer_inputs [[2]] dimer_state = - 1
   \<and> (\<exists>st'. CalcConc_step sample_env dimer_inputs [[2]] dimer_state = Inr st'
         \<and> l_lambda st' = [0] \<and> l_nNoStep st' = 1)"
proof -
  have h3: "fst (getx sample_env (l_x dimer_state) (l_lambda dimer_state) (in_G dimer_inputs) [[2]]
      (in_numSS dimer_inputs) (in_numTotal dimer_inputs))"
    using dimer_feasible by simp
  have h5: "\<not> fst (getx sample_env (replicate (in_numTotal dimer_inputs) 0)
      (map (\<lambda>i. l_lambda dimer_state ! i + fst (step_dir sample_env dimer_inputs dimer_state) ! i)
         [0..<in_numSS dimer_inputs])
      (in_G dimer_inputs) [[2]] (in_numSS dimer_inputs) (in_numTotal dimer_inputs))"
    using dimer_overflow dimer_dir by simp
  from trial_overflow_rejects_step [OF _ _ h3 trial_states.start h5] show ?thesis by simp
qed


text \<open>
  Claim C7. On every iteration of the inner loop the radius becomes \<open>delta / 4\<close> when
  \<open>rho < 0.25\<close>, \<open>min (2 delta) deltaBar\<close> when \<open>rho > 0.75\<close> and
  \<open>| ||p|| - delta | < NUM_PRECISION\<close>, and is unchanged otherwise; so in every state of
  a trial, which starts from \<open>0.99 deltaBar\<close> (\<open>trial_start_delta\<close>) with a positive
  \<open>deltaBar\<close>, the radius is positive and at most \<open>deltaBar\<close>. The states of a trial are
  those that the inner loop goes through (\<open>CalcConc_inner_states\<close>).
\<close>

theorem delta_update_and_bounds:
  assumes "0 < in_deltaBar I" and "l_delta st0 = 0.99 * in_deltaBar I"
    and "(iters, st) \<in> trial_states E I AT st0"
  shows "0 < l_delta st \<and> l_delta st \<le> in_deltaBar I
       \<and> (\<forall>st'. CalcConc_step E I AT st = Inr st' \<longrightarrow>
            l_delta st' =
              (if step_rho E I AT st < 0.25 then l_delta st / 4
               else if step_rho E I AT st > 0.75
                       \<and> \<bar>norm_vec (fst (step_dir E I st)) (in_numSS I) - l_delta st\<bar> < NUM_PRECISION E
                    then min (2 * l_delta st) (in_deltaBar I)
               else l_delta st))"
proof -
  from assms(3,1,2) have "0 < l_delta st \<and> l_delta st \<le> in_deltaBar I"
  proof (induction rule: trial_states.induct)
    case start
    then show ?case by simp
  next
    case (step iters st st')
    then have b: "0 < l_delta st" "l_delta st \<le> in_deltaBar I" by simp_all
    from CalcConc_step_delta[OF step.hyps(3)] b step.prems(1) show ?case
      by (auto split: if_splits)
  qed
  with CalcConc_step_delta show ?thesis by blast
qed

theorem delta_update_and_bounds_witness:
  "(1, dimer_state\<lparr>l_delta := 495 / 2, l_nNoStep := 1, l_RunStats := [1, 0, 0, 0, 0, 0]\<rparr>)
      \<in> trial_states sample_env dimer_inputs [[2]] dimer_state
   \<and> l_delta dimer_state = 0.99 * in_deltaBar dimer_inputs
   \<and> l_delta (dimer_state\<lparr>l_delta := 495 / 2, l_nNoStep := 1, l_RunStats := [1, 0, 0, 0, 0, 0]\<rparr>)
       = l_delta dimer_state / 4
   \<and> 0 < l_delta (dimer_state\<lparr>l_delta := 495 / 2, l_nNoStep := 1, l_RunStats := [1, 0, 0, 0, 0, 0]\<rparr>)"
proof -
  have g: "inner_guard dimer_inputs 0 dimer_state"
    by (simp add: inner_guard_def CheckTol_def AbsTol_of_def)
  have r: "(1, dimer_state\<lparr>l_delta := 495 / 2, l_nNoStep := 1, l_RunStats := [1, 0, 0, 0, 0, 0]\<rparr>)
      \<in> trial_states sample_env dimer_inputs [[2]] dimer_state"
    using trial_states.step [OF trial_states.start g dimer_step] by simp
  from delta_update_and_bounds [OF _ _ r] r show ?thesis by simp
qed

subsection \<open>The driver\<close>









lemma inert_guess:
  "getInitialGuess sample_env [1] [1] [[1]] [[1]] 1 1 100 0 gen = Some ([1], gen)"
  by (simp add: getInitialGuess_def sumint_def FindNonZero_def)

lemma inert_getx: "getx sample_env [0] [1] [1] [[1]] 1 1 = (True, [1])"
  by (simp add: getx_def getx_from.simps logx_at_def didot_def)

lemma inert_start:
  "trial_start sample_env (inert_inputs m kT) [[1]] 0 (CalcConc_init (inert_inputs m kT) gen)
     = Some (Inr (inert_final gen))"
  using inert_guess [where gen = gen] inert_getx
  by (simp add: trial_start_def CalcConc_init_def getGrad_def didot_def)

lemma inert_tol: "CheckTol (l_Grad (inert_final gen)) (AbsTol_of (inert_inputs m kT)) 1"
  by (simp add: CheckTol_def AbsTol_of_def)

lemma inert_trial:
  "CalcConc_trial sample_env (inert_inputs m kT) [[1]] 0 (CalcConc_init (inert_inputs m kT) gen)
     = Some (Inr (inert_final gen))"
  using inert_tol [where gen = gen and m = m and kT = kT] inert_start [where gen = gen and m = m and kT = kT]
  by (simp add: CalcConc_trial_def CalcConc_inner.simps inner_guard_def)

lemma inert_outer:
  assumes "0 < m"
  shows "CalcConc_outer sample_env (inert_inputs m kT) [[1]] 0 (CalcConc_init (inert_inputs m kT) gen)
     = Some (Inr (1, inert_final gen))"
proof -
  have n: "\<not> CheckTol (l_Grad (CalcConc_init (inert_inputs m kT) gen)) (AbsTol_of (inert_inputs m kT)) 1"
    by (simp add: CheckTol_def CalcConc_init_def AbsTol_of_def)
  have "CalcConc_outer sample_env (inert_inputs m kT) [[1]] 0 (CalcConc_init (inert_inputs m kT) gen)
      = CalcConc_outer sample_env (inert_inputs m kT) [[1]] (0 + 1) (inert_final gen)"
    using n assms inert_trial [where gen = gen and m = m and kT = kT] by (subst CalcConc_outer.simps) simp
  also have "\<dots> = Some (Inr (1, inert_final gen))"
    using inert_tol [where gen = gen and m = m and kT = kT] by (subst CalcConc_outer.simps) simp
  finally show ?thesis .
qed

lemma inert_run:
  assumes "0 < m"
  shows "CalcConc_run sample_env (inert_inputs m kT) gen = Some (Inr (1, inert_final gen, kT * 55))"
  using inert_outer [OF assms, where kT = kT and gen = gen]
  by (simp add: CalcConc_run_def IntTranspose_def FreeEnergy_of_def)

lemma indep_step:
  "CalcConc_step E (I\<lparr>in_kT := k, in_MolesWaterPerLiter := m\<rparr>) AT st = CalcConc_step E I AT st"
  by (simp add: CalcConc_step_def step_dir_def step_rho_def step_Hes_def
           cong: prod.case_cong if_cong)

lemma indep_guard:
  "inner_guard (I\<lparr>in_kT := k, in_MolesWaterPerLiter := m\<rparr>) iters st = inner_guard I iters st"
  by (simp add: inner_guard_def AbsTol_of_def)

lemma indep_inner:
  "CalcConc_inner E (I\<lparr>in_kT := k, in_MolesWaterPerLiter := m\<rparr>) AT iters st
     = CalcConc_inner E I AT iters st"
proof (induction E I AT iters st rule: CalcConc_inner.induct)
  case (1 E I AT iters st)
  note unf = CalcConc_inner.simps [of E I AT iters st]
    CalcConc_inner.simps [of E "I\<lparr>in_kT := k, in_MolesWaterPerLiter := m\<rparr>" AT iters st]
  show ?case
  proof (cases "inner_guard I iters st")
    case False
    then show ?thesis by (auto simp: unf indep_guard)
  next
    case True
    then show ?thesis
      by (auto simp: unf indep_guard indep_step "1.IH" split: sum.splits)
  qed
qed

lemma indep_trial:
  "CalcConc_trial E (I\<lparr>in_kT := k, in_MolesWaterPerLiter := m\<rparr>) AT nTrial st
     = CalcConc_trial E I AT nTrial st"
proof -
  have "trial_start E (I\<lparr>in_kT := k, in_MolesWaterPerLiter := m\<rparr>) AT nTrial st
     = trial_start E I AT nTrial st"
    by (simp add: trial_start_def cong: prod.case_cong option.case_cong if_cong)
  then show ?thesis
    by (simp add: CalcConc_trial_def indep_inner cong: option.case_cong sum.case_cong)
qed

lemma indep_outer:
  "CalcConc_outer E (I\<lparr>in_kT := k, in_MolesWaterPerLiter := m\<rparr>) AT nTrial st
     = CalcConc_outer E I AT nTrial st"
proof (induction E I AT nTrial st rule: CalcConc_outer.induct)
  case (1 E I AT nTrial st)
  note unf = CalcConc_outer.simps [of E I AT nTrial st]
    CalcConc_outer.simps [of E "I\<lparr>in_kT := k, in_MolesWaterPerLiter := m\<rparr>" AT nTrial st]
  show ?case
  proof (cases "\<not> CheckTol (l_Grad st) (AbsTol_of I) (in_numSS I) \<and> nTrial < in_MaxTrial I")
    case False
    then show ?thesis by (auto simp: unf AbsTol_of_def)
  next
    case True
    then show ?thesis
      by (auto simp: unf AbsTol_of_def indep_trial "1.IH" split: option.splits sum.splits)
  qed
qed






text \<open>
  Claim C1. The claim: \<^verbatim>\<open>CalcConc\<close> reports failure exactly when all \<^verbatim>\<open>MaxTrial\<close> trials
  end without the gradient within the tolerance, and success whenever some trial
  satisfies the tolerance. The code returns 0 when \<^verbatim>\<open>nTrial\<close> equals \<^verbatim>\<open>MaxTrial\<close> at the
  exit of the loop (lines 228 to 233), which is also the case when the last trial
  allowed has converged. Here \<^verbatim>\<open>MaxTrial\<close> is 1, the only trial ends with the gradient 0,
  the \<open>x\<close> returned passes \<^verbatim>\<open>CheckTol\<close>, and the value returned is 0.
\<close>

theorem last_trial_converges_reported_false:
  "CalcConc sample_env (inert_inputs 1 1) (\<lambda>n. 3 / 4)
     = Some (Inr \<lparr>converged = False, out_x = [1], out_gen = (\<lambda>n. 3 / 4)\<rparr>)
   \<and> CheckTol (getGrad [1] [1] [[1]] 1 1) (AbsTol_of (inert_inputs 1 1)) 1"
  using inert_run [where m = 1 and kT = 1 and gen = "\<lambda>n. 3 / 4"]
  by (simp add: CalcConc_def CheckTol_def getGrad_def didot_def AbsTol_of_def)



text \<open>
  Claim C2, as the code has it. What \<^verbatim>\<open>CalcConc\<close> gives its caller, besides the \<open>x\<close> it
  has written, is the flag of lines 228 to 233 alone. The free energy of lines 198 to
  210 and the counters \<^verbatim>\<open>RunStats\<close> stay in local variables: the outcome of the call is
  the same for every \<open>kT\<close> and every \<^verbatim>\<open>MolesWaterPerLiter\<close>, the two factors that turn the
  free energy into kcal per liter.
\<close>

theorem CalcConc_outcome_without_free_energy:
  "CalcConc E (I\<lparr>in_kT := kT', in_MolesWaterPerLiter := M'\<rparr>) gen = CalcConc E I gen"
proof -
  have "CalcConc_init (I\<lparr>in_kT := kT', in_MolesWaterPerLiter := M'\<rparr>) gen = CalcConc_init I gen"
    by (simp add: CalcConc_init_def AbsTol_of_def)
  then show ?thesis
    by (simp add: CalcConc_def CalcConc_run_def indep_outer Let_def split: option.splits sum.splits)
qed


text \<open>
  Claim C2 as the specification words it has the free energy and the counters in the
  result. Two runs on the same system with \<open>kT = 1\<close> and \<open>kT = 2\<close>: the local \<^verbatim>\<open>FreeEnergy\<close> is 55
  in the first and 110 in the second when line 228 is reached, and the two calls give
  their caller the same outcome. What is returned does not carry the free energy.
\<close>

theorem free_energy_not_returned_counterexample:
  "CalcConc_run sample_env (inert_inputs 2 1) (\<lambda>n. 3 / 4) = Some (Inr (1, inert_final (\<lambda>n. 3 / 4), 55))
   \<and> CalcConc_run sample_env (inert_inputs 2 2) (\<lambda>n. 3 / 4) = Some (Inr (1, inert_final (\<lambda>n. 3 / 4), 110))
   \<and> CalcConc sample_env (inert_inputs 2 1) (\<lambda>n. 3 / 4) = CalcConc sample_env (inert_inputs 2 2) (\<lambda>n. 3 / 4)"
  using inert_run [where m = 2 and kT = 1 and gen = "\<lambda>n. 3 / 4"]
        inert_run [where m = 2 and kT = 2 and gen = "\<lambda>n. 3 / 4"]
  by (simp add: CalcConc_def)

subsection \<open>The search direction\<close>

lemma dot_inner_prod:
  assumes "length u = n" and "length v = n"
  shows "dot u v n = inner_prod u v"
proof -
  have "map (\<lambda>i. u ! i * v ! i) [0..<n] = map (\<lambda>(a, b). a * b) (zip u v)"
    by (rule nth_equalityI) (use assms in auto)
  then show ?thesis by (simp add: dot_def inner_prod_def)
qed

lemma MatrixVectorMult_mat_vec:
  assumes "length M = n" and "\<forall>i<n. length (M ! i) = n" and "length v = n"
  shows "MatrixVectorMult M v n = mat_vec M v"
  unfolding MatrixVectorMult_def mat_vec_def
  by (rule nth_equalityI) (use assms in \<open>auto simp: dot_inner_prod\<close>)

lemma map_index_scale:
  assumes "length v = n"
  shows "map (\<lambda>i. c * v ! i) [0..<n] = scale c v"
  unfolding scale_def by (rule nth_equalityI) (use assms in auto)

lemma map_index_id:
  assumes "length v = n"
  shows "map (\<lambda>i. v ! i) [0..<n] = v"
  by (rule nth_equalityI) (use assms in auto)

lemma map_index_along:
  assumes "length u = n" and "length b = n"
  shows "map (\<lambda>i. u ! i + r * (b ! i - u ! i)) [0..<n] = along u b r"
  unfolding along_def by (rule nth_equalityI) (use assms in auto)


lemma HesCopy_take:
  assumes "\<forall>i<n. length (Hes ! i) = n"
  shows "map (\<lambda>i. map (\<lambda>j. Hes ! i ! j) [0..<Suc i]) [0..<n] = map (\<lambda>i. take (Suc i) (Hes ! i)) [0..<n]"
proof (rule map_cong[OF refl])
  fix i assume "i \<in> set [0..<n]"
  then have i: "i < n" by simp
  with assms have "length (Hes ! i) = n" by simp
  with i show "map (\<lambda>j. Hes ! i ! j) [0..<Suc i] = take (Suc i) (Hes ! i)"
    by (intro nth_equalityI) (auto simp del: upt_Suc)
qed


text \<open>
  Claim C5. \<^verbatim>\<open>getSearchDir\<close> makes the dogleg decision of the specification: the
  Newton step \<open>pB\<close> (code 1) when Cholesky succeeds and \<open>||pB||^2 \<le> delta^2\<close>; otherwise
  the Cauchy direction \<open>pU\<close> scaled to the boundary when \<open>||pU||^2 \<ge> delta^2\<close> (code 2,
  or 5 when Cholesky failed); otherwise \<open>pU\<close> itself when Cholesky failed (code 4);
  otherwise the point \<open>pU + alpha (pB - pU)\<close> (code 3) with the root \<open>c / q\<close> when it
  lies in [0, 1], else with the root \<open>q / a\<close> when that one does, and \<open>pU\<close> with code 6
  when neither does. The arrays have the sizes that \<^verbatim>\<open>CalcConc\<close> gives them, and the
  solver fills the \<open>numSS\<close> entries of \<open>pB\<close>.
\<close>

theorem getSearchDir_dogleg:
  assumes "length Grad = numSS" and "length Hes = numSS" and "\<forall>i<numSS. length (Hes ! i) = numSS"
    and "numSS \<le> length (choleskySolve E
           (snd (choleskyDecomposition E (map (\<lambda>i. take (Suc i) (Hes ! i)) [0..<numSS]) numSS))
           numSS Grad)"
  shows "getSearchDir E Grad Hes delta numSS
           = map_prod id class_code (dogleg_spec E Grad Hes delta numSS)"
proof -
  let ?HC = "map (\<lambda>i. take (Suc i) (Hes ! i)) [0..<numSS]"
  note hc = HesCopy_take[OF assms(3)]
  obtain ok L where ch: "choleskyDecomposition E ?HC numSS = (ok, L)"
    by (cases "choleskyDecomposition E ?HC numSS")
  define sol where "sol = choleskySolve E L numSS Grad"
  from assms(4) ch have sl: "numSS \<le> length sol" by (simp add: sol_def)
  define pB where "pB = map (\<lambda>i. sol ! i * (- 1)) [0..<numSS]"
  define pU where "pU = map (\<lambda>i. dot Grad Grad numSS
      / dot Grad (MatrixVectorMult Hes Grad numSS) numSS * (- (Grad ! i))) [0..<numSS]"
  have lB: "length pB = numSS" and lU: "length pU = numSS" by (simp_all add: pB_def pU_def)
  have pB_spec: "scale (- 1) (take numSS sol) = pB"
    unfolding scale_def pB_def by (rule nth_equalityI) (use sl in auto)
  have mv: "MatrixVectorMult Hes Grad numSS = mat_vec Hes Grad"
    by (rule MatrixVectorMult_mat_vec) (use assms in auto)
  have lmv: "length (mat_vec Hes Grad) = numSS" using assms(2) by (simp add: mat_vec_def)
  have pU_spec: "cauchy_dir Grad Hes = pU"
    unfolding cauchy_dir_def scale_def pU_def
    by (rule nth_equalityI)
       (use assms(1) lmv in \<open>auto simp: mv dot_inner_prod\<close>)
  have nB: "dot pB pB numSS = norm2 pB" and nU: "dot pU pU numSS = norm2 pU"
    and bu: "dot pB pU numSS = inner_prod pB pU"
    by (simp_all add: norm2_def dot_inner_prod lB lU)
  have vB: "map (\<lambda>i. pB ! i) [0..<numSS] = pB" and vU: "map (\<lambda>i. pU ! i) [0..<numSS] = pU"
    by (simp_all add: map_index_id lB lU)
  have vS: "map (\<lambda>i. t * pU ! i) [0..<numSS] = scale t pU" for t
    by (rule map_index_scale) (rule lU)
  have vA: "map (\<lambda>i. pU ! i + r * (pB ! i - pU ! i)) [0..<numSS] = along pU pB r" for r
    by (rule map_index_along) (rule lU, rule lB)
  have ns: "newton_step E Grad Hes numSS = (if ok = 1 then Some pB else None)"
    using pB_spec by (simp add: newton_step_def ch sol_def)
  show ?thesis
  proof (cases "ok = 1")
    case False
    have "getSearchDir E Grad Hes delta numSS =
        (if dot pU pU numSS \<ge> delta\<^sup>2
         then (map (\<lambda>i. sqrt (delta\<^sup>2 / dot pU pU numSS) * pU ! i) [0..<numSS], 5)
         else (map (\<lambda>i. pU ! i) [0..<numSS], 4))"
      using False unfolding getSearchDir_def Let_def hc ch pU_def by simp
    also have "\<dots> = map_prod id class_code (dogleg_spec E Grad Hes delta numSS)"
      using False by (simp add: dogleg_spec_def ns pU_spec nU vS vU Let_def)
    finally show ?thesis .
  next
    case True
    have "getSearchDir E Grad Hes delta numSS =
        (if dot pB pB numSS \<le> delta\<^sup>2 then (map (\<lambda>i. pB ! i) [0..<numSS], 1)
         else if dot pU pU numSS \<ge> delta\<^sup>2
         then (map (\<lambda>i. sqrt (delta\<^sup>2 / dot pU pU numSS) * pU ! i) [0..<numSS], 2)
         else (let pBpU = dot pB pU numSS;
                   a = dot pB pB numSS + dot pU pU numSS - 2 * pBpU;
                   b = 2 * (pBpU - dot pU pU numSS);
                   c = dot pU pU numSS - delta\<^sup>2;
                   sgnb = (if b < 0 then - 1 else 1);
                   q = - 0.5 * (b + sgnb * sqrt (b * b - 4 * a * c));
                   x1 = q / a;
                   x2 = c / q
               in if x2 \<ge> 0 \<and> x2 \<le> 1 then
                    (map (\<lambda>i. pU ! i + x2 * (pB ! i - pU ! i)) [0..<numSS], 3)
                  else if x1 \<ge> 0 \<and> x1 \<le> 1 then
                    (map (\<lambda>i. pU ! i + x1 * (pB ! i - pU ! i)) [0..<numSS], 3)
                  else (map (\<lambda>i. pU ! i) [0..<numSS], 6)))"
      using True unfolding getSearchDir_def Let_def hc ch pU_def pB_def sol_def by simp
    also have "\<dots> = map_prod id class_code (dogleg_spec E Grad Hes delta numSS)"
      using True unfolding nB nU bu vB vU vS vA
      by (simp add: dogleg_spec_def ns pU_spec Let_def power2_eq_square)
    finally show ?thesis .
  qed
qed


theorem getSearchDir_dogleg_witness:
  "getSearchDir sample_env [- 1000] [[4]] 990 1 = ([250], 1)
   \<and> dogleg_spec sample_env [- 1000] [[4]] 990 1 = ([250], Newton)
   \<and> getSearchDir sample_env [- 1000] [[4]] 100 1 = ([100], 2)
   \<and> dogleg_spec sample_env [- 1000] [[4]] 100 1 = ([100], CauchyBoundary)"
proof -
  have s: "sqrt (4 / 25) = 2 / 5"
    by (simp add: real_sqrt_divide)
  have n: "dogleg_spec sample_env [- 1000] [[4]] 990 1 = ([250], Newton)"
    by (simp add: dogleg_spec_def newton_step_def cauchy_dir_def scale_def norm2_def
        inner_prod_def mat_vec_def)
  have c: "dogleg_spec sample_env [- 1000] [[4]] 100 1 = ([100], CauchyBoundary)"
    by (simp add: dogleg_spec_def newton_step_def cauchy_dir_def scale_def norm2_def
        inner_prod_def mat_vec_def s)
  from getSearchDir_dogleg [where E = sample_env and Grad = "[- 1000]" and Hes = "[[4]]"
      and numSS = 1 and delta = 990]
    getSearchDir_dogleg [where E = sample_env and Grad = "[- 1000]" and Hes = "[[4]]"
      and numSS = 1 and delta = 100] n c
  show ?thesis by simp
qed

subsection \<open>The perturbation\<close>














end
